theory Spec2Isabelle
  imports Main "HOL-Library.Word" "HOL-Library.List_Lexorder"
begin

section \<open>Byte sequences\<close>

text \<open>
  A Go \<^verbatim>\<open>[]byte\<close> is a list of 8-bit words. The order on \<open>8 word\<close> is the unsigned
  one, and the order on lists is the lexicographic one in which a proper prefix is smaller:
  the order of Go's \<^verbatim>\<open>bytes.Compare\<close>, by which the store keeps its keys. A nil slice and
  an empty slice behave alike under \<^verbatim>\<open>len\<close>, \<^verbatim>\<open>range\<close>, \<^verbatim>\<open>append\<close> and
  \<^verbatim>\<open>bytes.HasPrefix\<close>; both are the empty list here.
\<close>

type_synonym byte = "8 word"
type_synonym bytes = "byte list"

text \<open>
  Go's \<^verbatim>\<open>bytes.HasPrefix(s, prefix)\<close>:
  \<^verbatim>\<open>len(s) >= len(prefix) && Equal(s[:len(prefix)], prefix)\<close>.
\<close>

definition HasPrefix :: "bytes \<Rightarrow> bytes \<Rightarrow> bool" where
  "HasPrefix s pre = (length pre \<le> length s \<and> take (length pre) s = pre)"

text \<open>
  Go's \<^verbatim>\<open>error\<close> values that occur: the error of a failed value read, the error
  \<^verbatim>\<open>json.Unmarshal\<close> returns, and an error made by \<^verbatim>\<open>fmt.Errorf\<close> from a message.
\<close>

datatype error = StoreError string | UnmarshalError | Errorf string

section \<open>The store as the scan consumes it\<close>

text \<open>
  The ordered key-value store (badger) is an external collaborator. The scan uses a read
  transaction, a forward iterator with \<^verbatim>\<open>Seek\<close>, \<^verbatim>\<open>ValidForPrefix\<close>, \<^verbatim>\<open>Next\<close>,
  \<^verbatim>\<open>Item\<close> and \<^verbatim>\<open>Close\<close>, and per item \<^verbatim>\<open>Key\<close> and \<^verbatim>\<open>ValueCopy\<close>.

  An item carries its key and the outcome of \<^verbatim>\<open>ValueCopy(nil)\<close>: the value bytes, or
  the error the store reports when the value cannot be read.
\<close>

record Item =
  Key :: bytes
  ValueCopy :: "error + bytes"

text \<open>
  A transaction sees the entries of its snapshot in the store's key order and counts the
  iterators opened on it and not yet closed.
\<close>

record Txn =
  items :: "Item list"
  numIterators :: "32 word"

text \<open>
  The store keeps one entry per key, in strictly ascending key order.
\<close>

definition wf_txn :: "Txn \<Rightarrow> bool" where
  "wf_txn txn = sorted_wrt (<) (map Key (items txn))"

text \<open>
  An iterator holds the entries of its transaction and the part of them from the cursor
  onward; the item under the cursor is the head of \<open>cur\<close>, and an empty \<open>cur\<close> is an
  exhausted iterator.
\<close>

record Iterator =
  entries :: "Item list"
  cur :: "Item list"

definition NewIterator :: "Txn \<Rightarrow> Iterator \<times> Txn" where
  "NewIterator txn =
     (\<lparr>entries = items txn, cur = []\<rparr>, txn\<lparr>numIterators := numIterators txn + 1\<rparr>)"

definition Close :: "Iterator \<Rightarrow> Txn \<Rightarrow> Txn" where
  "Close it txn = txn\<lparr>numIterators := numIterators txn - 1\<rparr>"

text \<open>\<^verbatim>\<open>Seek(key)\<close> places the cursor on the first entry whose key is not below \<open>key\<close>.\<close>

definition Seek :: "Iterator \<Rightarrow> bytes \<Rightarrow> Iterator" where
  "Seek it k = it\<lparr>cur := dropWhile (\<lambda>x. Key x < k) (entries it)\<rparr>"

definition Valid :: "Iterator \<Rightarrow> bool" where
  "Valid it = (cur it \<noteq> [])"

text \<open>
  \<^verbatim>\<open>Item()\<close> is the item under the cursor; the scan calls it only on an iterator it
  has found valid, where \<open>cur\<close> is not empty.
\<close>

definition Iterator_Item :: "Iterator \<Rightarrow> Item" where
  "Iterator_Item it = hd (cur it)"

definition ValidForPrefix :: "Iterator \<Rightarrow> bytes \<Rightarrow> bool" where
  "ValidForPrefix it pre = (Valid it \<and> HasPrefix (Key (Iterator_Item it)) pre)"

definition Next :: "Iterator \<Rightarrow> Iterator" where
  "Next it = it\<lparr>cur := tl (cur it)\<rparr>"

section \<open>The range scan\<close>

text \<open>
  The loop of \<^verbatim>\<open>_enumerateKeysForPrefixWithTxn\<close>:
  \<^verbatim>\<open>for nodeIterator.Seek(prefix); nodeIterator.ValidForPrefix(prefix); nodeIterator.Next()\<close>.
  The iterator passed in is the one after \<^verbatim>\<open>Seek\<close>. \<open>keyCopy\<close> is a fresh slice of
  the key's length that receives the key's bytes, so it equals the key. The result is the Go
  triple \<^verbatim>\<open>(_keysFound, _valsFound, _err)\<close>, a nil error being \<open>None\<close>.
\<close>

type_synonym scan_result = "bytes list \<times> bytes list \<times> error option"

function enumerate_loop ::
  "Iterator \<Rightarrow> bytes \<Rightarrow> bytes list \<Rightarrow> bytes list \<Rightarrow> scan_result" where
  "enumerate_loop nodeIterator pre keysFound valsFound =
     (if ValidForPrefix nodeIterator pre then
        (let key = Key (Iterator_Item nodeIterator);
             keyCopy = key
         in case ValueCopy (Iterator_Item nodeIterator) of
              Inl err \<Rightarrow> ([], [], Some err)
            | Inr valCopy \<Rightarrow>
                enumerate_loop (Next nodeIterator) pre
                  (keysFound @ [keyCopy]) (valsFound @ [valCopy]))
      else (keysFound, valsFound, None))"
  by pat_completeness auto
termination
  by (relation "measure (\<lambda>(it, _, _, _). length (cur it))")
     (auto simp: ValidForPrefix_def Valid_def Next_def)

declare enumerate_loop.simps [simp del]

text \<open>
  \<^verbatim>\<open>_enumerateKeysForPrefixWithTxn\<close> (an Isabelle name cannot start with an underscore).
  The deferred \<^verbatim>\<open>nodeIterator.Close()\<close> runs on every return path; the transaction is
  returned with the result, being the state the call leaves behind.
\<close>

definition enumerateKeysForPrefixWithTxn :: "Txn \<Rightarrow> bytes \<Rightarrow> scan_result \<times> Txn" where
  "enumerateKeysForPrefixWithTxn txn dbPrefix =
     (let keysFound = [];
          valsFound = [];
          (nodeIterator, txn1) = NewIterator txn;
          pre = dbPrefix;
          result = enumerate_loop (Seek nodeIterator pre) pre keysFound valsFound
      in (result, Close nodeIterator txn1))"

section \<open>The prefix registry\<close>

text \<open>
  The struct type \<^verbatim>\<open>DBPrefixes\<close> as reflection presents it: its fields in declaration
  order, each with its name and its tag. A struct tag is a sequence of
  \<^verbatim>\<open>key:"value"\<close> pairs; \<^verbatim>\<open>Tag.Get(key)\<close> returns the value of the first pair with
  that key, and the empty string when there is none. Every field has the type
  \<^verbatim>\<open>[]byte\<close>.
\<close>

record StructField =
  Name :: string
  Tag :: "(string \<times> string) list"

definition Tag_Get :: "(string \<times> string) list \<Rightarrow> string \<Rightarrow> string" where
  "Tag_Get tag k = (case map_of tag k of None \<Rightarrow> [] | Some v \<Rightarrow> v)"

definition DBPrefixes :: "StructField list" where
  "DBPrefixes =
    [\<lparr>Name = ''PrefixBlockHashToBlock'',
      Tag = [(''prefix_id'', ''[0]''), (''core_state'', ''true'')]\<rparr>,
     \<lparr>Name = ''PrefixHeightHashToNodeInfo'',
      Tag = [(''prefix_id'', ''[1]'')]\<rparr>,
     \<lparr>Name = ''PrefixBitcoinHeightHashToNodeInfo'',
      Tag = [(''prefix_id'', ''[2]'')]\<rparr>,
     \<lparr>Name = ''PrefixBestDeSoBlockHash'',
      Tag = [(''prefix_id'', ''[3]'')]\<rparr>,
     \<lparr>Name = ''PrefixBestBitcoinHeaderHash'',
      Tag = [(''prefix_id'', ''[4]'')]\<rparr>,
     \<lparr>Name = ''PrefixUtxoKeyToUtxoEntry'',
      Tag = [(''prefix_id'', ''[5]''), (''is_state'', ''true'')]\<rparr>,
     \<lparr>Name = ''PrefixPubKeyUtxoKey'',
      Tag = [(''prefix_id'', ''[7]''), (''is_state'', ''true'')]\<rparr>,
     \<lparr>Name = ''PrefixUtxoNumEntries'',
      Tag = [(''prefix_id'', ''[8]''), (''is_state'', ''true'')]\<rparr>,
     \<lparr>Name = ''PrefixBlockHashToUtxoOperations'',
      Tag = [(''prefix_id'', ''[9]''), (''core_state'', ''true'')]\<rparr>,
     \<lparr>Name = ''PrefixNanosPurchased'',
      Tag = [(''prefix_id'', ''[10]''), (''is_state'', ''true'')]\<rparr>,
     \<lparr>Name = ''PrefixUSDCentsPerBitcoinExchangeRate'',
      Tag = [(''prefix_id'', ''[27]''), (''is_state'', ''true'')]\<rparr>,
     \<lparr>Name = ''PrefixGlobalParams'',
      Tag = [(''prefix_id'', ''[40]''), (''is_state'', ''true'')]\<rparr>,
     \<lparr>Name = ''PrefixBitcoinBurnTxIDs'',
      Tag = [(''prefix_id'', ''[11]''), (''is_state'', ''true'')]\<rparr>,
     \<lparr>Name = ''PrefixPublicKeyTimestampToPrivateMessage'',
      Tag = [(''prefix_id'', ''[12]''), (''is_state'', ''true''), (''core_state'', ''true'')]\<rparr>,
     \<lparr>Name = ''PrefixTransactionIndexTip'',
      Tag = [(''prefix_id'', ''[14]''), (''is_txindex'', ''true'')]\<rparr>,
     \<lparr>Name = ''PrefixTransactionIDToMetadata'',
      Tag = [(''prefix_id'', ''[15]''), (''is_txindex'', ''true'')]\<rparr>,
     \<lparr>Name = ''PrefixPublicKeyIndexToTransactionIDs'',
      Tag = [(''prefix_id'', ''[16]''), (''is_txindex'', ''true'')]\<rparr>,
     \<lparr>Name = ''PrefixPublicKeyToNextIndex'',
      Tag = [(''prefix_id'', ''[42]''), (''is_txindex'', ''true'')]\<rparr>,
     \<lparr>Name = ''PrefixPostHashToPostEntry'',
      Tag = [(''prefix_id'', ''[17]''), (''is_state'', ''true''), (''core_state'', ''true'')]\<rparr>,
     \<lparr>Name = ''PrefixPosterPublicKeyPostHash'',
      Tag = [(''prefix_id'', ''[18]''), (''is_state'', ''true'')]\<rparr>,
     \<lparr>Name = ''PrefixTstampNanosPostHash'',
      Tag = [(''prefix_id'', ''[19]''), (''is_state'', ''true'')]\<rparr>,
     \<lparr>Name = ''PrefixCreatorBpsPostHash'',
      Tag = [(''prefix_id'', ''[20]''), (''is_state'', ''true'')]\<rparr>,
     \<lparr>Name = ''PrefixMultipleBpsPostHash'',
      Tag = [(''prefix_id'', ''[21]''), (''is_state'', ''true'')]\<rparr>,
     \<lparr>Name = ''PrefixCommentParentStakeIDToPostHash'',
      Tag = [(''prefix_id'', ''[22]''), (''is_state'', ''true'')]\<rparr>,
     \<lparr>Name = ''PrefixPKIDToProfileEntry'',
      Tag = [(''prefix_id'', ''[23]''), (''is_state'', ''true''), (''core_state'', ''true'')]\<rparr>,
     \<lparr>Name = ''PrefixProfileUsernameToPKID'',
      Tag = [(''prefix_id'', ''[25]''), (''is_state'', ''true'')]\<rparr>,
     \<lparr>Name = ''PrefixCreatorDeSoLockedNanosCreatorPKID'',
      Tag = [(''prefix_id'', ''[32]''), (''is_state'', ''true'')]\<rparr>,
     \<lparr>Name = ''PrefixStakeIDTypeAmountStakeIDIndex'',
      Tag = [(''prefix_id'', ''[26]''), (''is_state'', ''true'')]\<rparr>,
     \<lparr>Name = ''PrefixFollowerPKIDToFollowedPKID'',
      Tag = [(''prefix_id'', ''[28]''), (''is_state'', ''true''), (''core_state'', ''true'')]\<rparr>,
     \<lparr>Name = ''PrefixFollowedPKIDToFollowerPKID'',
      Tag = [(''prefix_id'', ''[29]''), (''is_state'', ''true'')]\<rparr>,
     \<lparr>Name = ''PrefixLikerPubKeyToLikedPostHash'',
      Tag = [(''prefix_id'', ''[30]''), (''is_state'', ''true''), (''core_state'', ''true'')]\<rparr>,
     \<lparr>Name = ''PrefixLikedPostHashToLikerPubKey'',
      Tag = [(''prefix_id'', ''[31]''), (''is_state'', ''true'')]\<rparr>,
     \<lparr>Name = ''PrefixHODLerPKIDCreatorPKIDToBalanceEntry'',
      Tag = [(''prefix_id'', ''[33]''), (''is_state'', ''true'')]\<rparr>,
     \<lparr>Name = ''PrefixCreatorPKIDHODLerPKIDToBalanceEntry'',
      Tag = [(''prefix_id'', ''[34]''), (''is_state'', ''true''), (''core_state'', ''true'')]\<rparr>,
     \<lparr>Name = ''PrefixPosterPublicKeyTimestampPostHash'',
      Tag = [(''prefix_id'', ''[35]''), (''is_state'', ''true'')]\<rparr>,
     \<lparr>Name = ''PrefixPublicKeyToPKID'',
      Tag = [(''prefix_id'', ''[36]''), (''is_state'', ''true''), (''core_state'', ''true'')]\<rparr>,
     \<lparr>Name = ''PrefixPKIDToPublicKey'',
      Tag = [(''prefix_id'', ''[37]''), (''is_state'', ''true'')]\<rparr>,
     \<lparr>Name = ''PrefixMempoolTxnHashToMsgDeSoTxn'',
      Tag = [(''prefix_id'', ''[38]'')]\<rparr>,
     \<lparr>Name = ''PrefixReposterPubKeyRepostedPostHashToRepostPostHash'',
      Tag = [(''prefix_id'', ''[39]''), (''is_state'', ''true'')]\<rparr>,
     \<lparr>Name = ''PrefixDiamondReceiverPKIDDiamondSenderPKIDPostHash'',
      Tag = [(''prefix_id'', ''[41]''), (''is_state'', ''true'')]\<rparr>,
     \<lparr>Name = ''PrefixDiamondSenderPKIDDiamondReceiverPKIDPostHash'',
      Tag = [(''prefix_id'', ''[43]''), (''is_state'', ''true''), (''core_state'', ''true'')]\<rparr>,
     \<lparr>Name = ''PrefixForbiddenBlockSignaturePubKeys'',
      Tag = [(''prefix_id'', ''[44]''), (''is_state'', ''true'')]\<rparr>,
     \<lparr>Name = ''PrefixRepostedPostHashReposterPubKey'',
      Tag = [(''prefix_id'', ''[45]''), (''is_state'', ''true'')]\<rparr>,
     \<lparr>Name = ''PrefixRepostedPostHashReposterPubKeyRepostPostHash'',
      Tag = [(''prefix_id'', ''[46]''), (''is_state'', ''true'')]\<rparr>,
     \<lparr>Name = ''PrefixDiamondedPostHashDiamonderPKIDDiamondLevel'',
      Tag = [(''prefix_id'', ''[47]''), (''is_state'', ''true'')]\<rparr>,
     \<lparr>Name = ''PrefixPostHashSerialNumberToNFTEntry'',
      Tag = [(''prefix_id'', ''[48]''), (''is_state'', ''true''), (''core_state'', ''true'')]\<rparr>,
     \<lparr>Name = ''PrefixPKIDIsForSaleBidAmountNanosPostHashSerialNumberToNFTEntry'',
      Tag = [(''prefix_id'', ''[49]''), (''is_state'', ''true'')]\<rparr>,
     \<lparr>Name = ''PrefixPostHashSerialNumberBidNanosBidderPKID'',
      Tag = [(''prefix_id'', ''[50]''), (''is_state'', ''true''), (''core_state'', ''true'')]\<rparr>,
     \<lparr>Name = ''PrefixBidderPKIDPostHashSerialNumberToBidNanos'',
      Tag = [(''prefix_id'', ''[51]''), (''is_state'', ''true'')]\<rparr>,
     \<lparr>Name = ''PrefixPublicKeyToDeSoBalanceNanos'',
      Tag = [(''prefix_id'', ''[52]''), (''is_state'', ''true''), (''core_state'', ''true'')]\<rparr>,
     \<lparr>Name = ''PrefixPublicKeyBlockHashToBlockReward'',
      Tag = [(''prefix_id'', ''[53]''), (''is_state'', ''true'')]\<rparr>,
     \<lparr>Name = ''PrefixPostHashSerialNumberToAcceptedBidEntries'',
      Tag = [(''prefix_id'', ''[54]''), (''is_state'', ''true'')]\<rparr>,
     \<lparr>Name = ''PrefixHODLerPKIDCreatorPKIDToDAOCoinBalanceEntry'',
      Tag = [(''prefix_id'', ''[55]''), (''is_state'', ''true''), (''core_state'', ''true'')]\<rparr>,
     \<lparr>Name = ''PrefixCreatorPKIDHODLerPKIDToDAOCoinBalanceEntry'',
      Tag = [(''prefix_id'', ''[56]''), (''is_state'', ''true'')]\<rparr>,
     \<lparr>Name = ''PrefixMessagingGroupEntriesByOwnerPubKeyAndGroupKeyName'',
      Tag = [(''prefix_id'', ''[57]''), (''is_state'', ''true'')]\<rparr>,
     \<lparr>Name = ''PrefixMessagingGroupMetadataByMemberPubKeyAndGroupMessagingPubKey'',
      Tag = [(''prefix_id'', ''[58]''), (''is_state'', ''true'')]\<rparr>,
     \<lparr>Name = ''PrefixAuthorizeDerivedKey'',
      Tag = [(''prefix_id'', ''[59]''), (''is_state'', ''true''), (''core_state'', ''true'')]\<rparr>,
     \<lparr>Name = ''PrefixDAOCoinLimitOrder'',
      Tag = [(''prefix_id'', ''[60]''), (''is_state'', ''true''), (''core_state'', ''true'')]\<rparr>,
     \<lparr>Name = ''PrefixDAOCoinLimitOrderByTransactorPKID'',
      Tag = [(''prefix_id'', ''[61]''), (''is_state'', ''true'')]\<rparr>,
     \<lparr>Name = ''PrefixDAOCoinLimitOrderByOrderID'',
      Tag = [(''prefix_id'', ''[62]''), (''is_state'', ''true'')]\<rparr>,
     \<lparr>Name = ''PrefixUserAssociationByID'',
      Tag = [(''prefix_id'', ''[63]''), (''is_state'', ''true''), (''core_state'', ''true'')]\<rparr>,
     \<lparr>Name = ''PrefixUserAssociationByTransactor'',
      Tag = [(''prefix_id'', ''[64]''), (''is_state'', ''true'')]\<rparr>,
     \<lparr>Name = ''PrefixUserAssociationByTargetUser'',
      Tag = [(''prefix_id'', ''[65]''), (''is_state'', ''true'')]\<rparr>,
     \<lparr>Name = ''PrefixUserAssociationByUsers'',
      Tag = [(''prefix_id'', ''[66]''), (''is_state'', ''true'')]\<rparr>,
     \<lparr>Name = ''PrefixPostAssociationByID'',
      Tag = [(''prefix_id'', ''[67]''), (''is_state'', ''true''), (''core_state'', ''true'')]\<rparr>,
     \<lparr>Name = ''PrefixPostAssociationByTransactor'',
      Tag = [(''prefix_id'', ''[68]''), (''is_state'', ''true'')]\<rparr>,
     \<lparr>Name = ''PrefixPostAssociationByPost'',
      Tag = [(''prefix_id'', ''[69]''), (''is_state'', ''true'')]\<rparr>,
     \<lparr>Name = ''PrefixPostAssociationByType'',
      Tag = [(''prefix_id'', ''[70]''), (''is_state'', ''true'')]\<rparr>,
     \<lparr>Name = ''PrefixAccessGroupEntriesByAccessGroupId'',
      Tag = [(''prefix_id'', ''[71]''), (''is_state'', ''true''), (''core_state'', ''true'')]\<rparr>,
     \<lparr>Name = ''PrefixAccessGroupMembershipIndex'',
      Tag = [(''prefix_id'', ''[72]''), (''is_state'', ''true''), (''core_state'', ''true'')]\<rparr>,
     \<lparr>Name = ''PrefixAccessGroupMemberEnumerationIndex'',
      Tag = [(''prefix_id'', ''[73]''), (''is_state'', ''true'')]\<rparr>,
     \<lparr>Name = ''PrefixGroupChatMessagesIndex'',
      Tag = [(''prefix_id'', ''[74]''), (''is_state'', ''true''), (''core_state'', ''true'')]\<rparr>,
     \<lparr>Name = ''PrefixDmMessagesIndex'',
      Tag = [(''prefix_id'', ''[75]''), (''is_state'', ''true'')]\<rparr>,
     \<lparr>Name = ''PrefixDmThreadIndex'',
      Tag = [(''prefix_id'', ''[76]''), (''is_state'', ''true'')]\<rparr>,
     \<lparr>Name = ''PrefixNoncePKIDIndex'',
      Tag = [(''prefix_id'', ''[77]''), (''is_state'', ''true'')]\<rparr>,
     \<lparr>Name = ''PrefixTxnHashToTxn'',
      Tag = [(''prefix_id'', ''[78]''), (''core_state'', ''true'')]\<rparr>,
     \<lparr>Name = ''PrefixTxnHashToUtxoOps'',
      Tag = [(''prefix_id'', ''[79]''), (''core_state'', ''true'')]\<rparr>]"

text \<open>
  A panic carries the error value it was raised with. A function that may panic returns
  \<open>Inl\<close> of the panic or \<open>Inr\<close> of its result.
\<close>

datatype panic = Panic error

text \<open>
  \<^verbatim>\<open>getPrefixIdValue\<close>. \<^verbatim>\<open>json.Unmarshal\<close> belongs to Go's standard library and not
  to the repository; it is the parameter \<open>Unmarshal\<close>, which takes the text and returns
  the decoded byte slice or an error. \<open>ref\<close> starts as the empty slice made by
  \<^verbatim>\<open>reflect.MakeSlice(fieldType, 0, 0)\<close>.
\<close>

definition getPrefixIdValue :: "(string \<Rightarrow> error + bytes) \<Rightarrow> StructField \<Rightarrow> panic + bytes" where
  "getPrefixIdValue Unmarshal structFields =
     (let v = Tag_Get (Tag structFields) ''prefix_id'' in
      if v \<noteq> ''-'' then
        (let ref = [] in
         if v \<noteq> [] \<and> v \<noteq> ''[]'' then
           (case Unmarshal v of
              Inl err \<Rightarrow> Inl (Panic err)
            | Inr decoded \<Rightarrow> Inr decoded)
         else Inr ref)
      else Inl (Panic (Errorf ''prefix_id cannot be empty'')))"

text \<open>
  The loop of \<^verbatim>\<open>GetPrefixes\<close> over the fields of the struct type,
  \<^verbatim>\<open>for i := 0; i < structFields.NumField(); i++\<close>. The struct value \<open>prefixes\<close> is the
  list of its fields' names and values in declaration order; the loop stores the resolved
  prefix in field \<open>i\<close>. A panic of \<^verbatim>\<open>getPrefixIdValue\<close> ends the loop and is the
  outcome.
\<close>

function GetPrefixes_loop ::
  "(string \<Rightarrow> error + bytes) \<Rightarrow> StructField list \<Rightarrow> nat \<Rightarrow> (string \<times> bytes) list
     \<Rightarrow> panic + (string \<times> bytes) list" where
  "GetPrefixes_loop Unmarshal structFields i prefixes =
     (if i < length structFields then
        (case getPrefixIdValue Unmarshal (structFields ! i) of
           Inl p \<Rightarrow> Inl p
         | Inr prefixId \<Rightarrow>
             GetPrefixes_loop Unmarshal structFields (i + 1)
               (prefixes[i := (fst (prefixes ! i), prefixId)]))
      else Inr prefixes)"
  by pat_completeness auto
termination
  by (relation "measure (\<lambda>(_, structFields, i, _). length structFields - i)") auto

declare GetPrefixes_loop.simps [simp del]

text \<open>
  \<^verbatim>\<open>GetPrefixes\<close> for a struct type with the given fields: \<^verbatim>\<open>&DBPrefixes{}\<close> is the
  struct value whose fields are all nil, then the loop runs from field 0.
\<close>

definition GetPrefixes_of ::
  "(string \<Rightarrow> error + bytes) \<Rightarrow> StructField list \<Rightarrow> panic + (string \<times> bytes) list" where
  "GetPrefixes_of Unmarshal structFields =
     GetPrefixes_loop Unmarshal structFields 0 (map (\<lambda>f. (Name f, [])) structFields)"

definition GetPrefixes :: "(string \<Rightarrow> error + bytes) \<Rightarrow> panic + (string \<times> bytes) list" where
  "GetPrefixes Unmarshal = GetPrefixes_of Unmarshal DBPrefixes"

subsection \<open>Decoding a declaration\<close>

text \<open>
  What \<^verbatim>\<open>json.Unmarshal\<close> does with a \<^verbatim>\<open>[]byte\<close> destination on the texts the
  declarations are written in: a JSON array of unsigned integer literals, with optional
  white space. Each literal becomes one byte; a literal above 255 does not fit a byte and
  is an error, as is a literal with a leading zero, a sign, a fraction or an exponent, and
  a text that is not such an array. (Go also accepts \<^verbatim>\<open>null\<close>, a base64 string and
  \<^verbatim>\<open>null\<close> elements, which no declaration uses; they are outside this model, which
  reports them as errors.)

  The text is read character by character; the state says what may come next.
\<close>

definition isSpace :: "char \<Rightarrow> bool" where
  "isSpace c = (c = CHR '' '' \<or> c = CHR 0x09 \<or> c = CHR 0x0D \<or> c = CHR 0x0A)"

definition digit :: "char \<Rightarrow> nat option" where
  "digit c = map_of (zip ''0123456789'' [0, 1, 2, 3, 4, 5, 6, 7, 8, 9]) c"

datatype scan_state =
    BeginValue
  | BeginArray
  | NextElem
  | InZero
  | InNumber nat
  | EndElem
  | EndTop

definition after_elem :: "char \<Rightarrow> scan_state option" where
  "after_elem c =
     (if isSpace c then Some EndElem
      else if c = CHR '','' then Some NextElem
      else if c = CHR '']'' then Some EndTop
      else None)"

definition begin_number :: "char \<Rightarrow> scan_state option" where
  "begin_number c =
     (case digit c of
        None \<Rightarrow> None
      | Some d \<Rightarrow> Some (if d = 0 then InZero else InNumber d))"

fun json_scan :: "scan_state \<Rightarrow> bytes \<Rightarrow> string \<Rightarrow> error + bytes" where
  "json_scan st acc [] = (if st = EndTop then Inr acc else Inl UnmarshalError)"
| "json_scan st acc (c # cs) =
     (case st of
        BeginValue \<Rightarrow>
          if isSpace c then json_scan BeginValue acc cs
          else if c = CHR ''['' then json_scan BeginArray acc cs
          else Inl UnmarshalError
      | BeginArray \<Rightarrow>
          if isSpace c then json_scan BeginArray acc cs
          else if c = CHR '']'' then json_scan EndTop acc cs
          else (case begin_number c of
                  None \<Rightarrow> Inl UnmarshalError
                | Some st' \<Rightarrow> json_scan st' acc cs)
      | NextElem \<Rightarrow>
          if isSpace c then json_scan NextElem acc cs
          else (case begin_number c of
                  None \<Rightarrow> Inl UnmarshalError
                | Some st' \<Rightarrow> json_scan st' acc cs)
      | InZero \<Rightarrow>
          (case after_elem c of
             None \<Rightarrow> Inl UnmarshalError
           | Some st' \<Rightarrow> json_scan st' (acc @ [0]) cs)
      | InNumber n \<Rightarrow>
          (case digit c of
             Some d \<Rightarrow> json_scan (InNumber (10 * n + d)) acc cs
           | None \<Rightarrow>
               (case after_elem c of
                  None \<Rightarrow> Inl UnmarshalError
                | Some st' \<Rightarrow>
                    if n \<le> 255 then json_scan st' (acc @ [of_nat n]) cs
                    else Inl UnmarshalError))
      | EndElem \<Rightarrow>
          (case after_elem c of
             None \<Rightarrow> Inl UnmarshalError
           | Some st' \<Rightarrow> json_scan st' acc cs)
      | EndTop \<Rightarrow>
          if isSpace c then json_scan EndTop acc cs else Inl UnmarshalError)"

definition json_Unmarshal :: "string \<Rightarrow> error + bytes" where
  "json_Unmarshal data = json_scan BeginValue [] data"

section \<open>Auxiliary functions for the proofs\<close>

text \<open>
  Reading the values of a run of items in order, stopping at the first failure: what the
  loop's calls of \<^verbatim>\<open>ValueCopy\<close> amount to. Used to state what the loop computes.
\<close>

fun read_all :: "Item list \<Rightarrow> error + bytes list" where
  "read_all [] = Inr []"
| "read_all (x # xs) =
     (case ValueCopy x of
        Inl e \<Rightarrow> Inl e
      | Inr v \<Rightarrow> (case read_all xs of Inl e \<Rightarrow> Inl e | Inr vs \<Rightarrow> Inr (v # vs)))"

text \<open>
  Resolving the declarations of a list of fields in order, stopping at the first panic: what
  the calls of \<^verbatim>\<open>getPrefixIdValue\<close> in the loop of \<^verbatim>\<open>GetPrefixes\<close> amount to.
\<close>

fun resolve_all :: "(string \<Rightarrow> error + bytes) \<Rightarrow> StructField list \<Rightarrow> panic + bytes list" where
  "resolve_all um [] = Inr []"
| "resolve_all um (f # fs) =
     (case getPrefixIdValue um f of
        Inl p \<Rightarrow> Inl p
      | Inr v \<Rightarrow> (case resolve_all um fs of Inl p \<Rightarrow> Inl p | Inr vs \<Rightarrow> Inr (v # vs)))"

section \<open>Properties of the range scan\<close>

lemma enumerate_loop_invalid:
  "\<not> ValidForPrefix it pre \<Longrightarrow> enumerate_loop it pre ks vs = (ks, vs, None)"
  by (simp add: enumerate_loop.simps)

lemma scan_result_unfold:
  "fst (enumerateKeysForPrefixWithTxn txn pre) =
     enumerate_loop \<lparr>entries = items txn, cur = dropWhile (\<lambda>x. Key x < pre) (items txn)\<rparr>
       pre [] []"
  by (simp add: enumerateKeysForPrefixWithTxn_def NewIterator_def Seek_def)

lemma ValidForPrefix_iff:
  "ValidForPrefix \<lparr>entries = es, cur = c\<rparr> pre =
     (case c of [] \<Rightarrow> False | x # _ \<Rightarrow> HasPrefix (Key x) pre)"
  by (simp add: ValidForPrefix_def Valid_def Iterator_Item_def split: list.splits)

lemma HasPrefix_Nil [simp]: "HasPrefix s []"
  by (simp add: HasPrefix_def)

lemma HasPrefix_Nil_Cons [simp]: "\<not> HasPrefix [] (p # ps)"
  by (simp add: HasPrefix_def)

lemma HasPrefix_Cons_Cons [simp]: "HasPrefix (a # s) (p # ps) = (a = p \<and> HasPrefix s ps)"
  by (auto simp: HasPrefix_def)

lemma HasPrefix_append: "HasPrefix (pre @ s) pre"
  by (simp add: HasPrefix_def)

lemma HasPrefix_iff_append: "HasPrefix k pre = (\<exists>s. k = pre @ s)"
  by (metis HasPrefix_def append_eq_conv_conj append_take_drop_id length_append le_add1)

lemma HasPrefix_le: "HasPrefix k pre \<Longrightarrow> pre \<le> k"
proof (induction pre arbitrary: k)
  case Nil
  then show ?case by simp
next
  case (Cons p ps)
  then show ?case by (cases k) auto
qed

lemma HasPrefix_between:
  "pre \<le> k1 \<Longrightarrow> k1 < k2 \<Longrightarrow> HasPrefix k2 pre \<Longrightarrow> HasPrefix k1 pre"
proof (induction pre arbitrary: k1 k2)
  case Nil
  then show ?case by simp
next
  case (Cons p ps)
  then show ?case by (cases k1; cases k2) auto
qed

lemma dropWhile_all_ge:
  "\<forall>y \<in> set xs. pre \<le> Key y \<Longrightarrow> dropWhile (\<lambda>x. Key x < pre) xs = xs"
  by (cases xs) (auto simp: not_less)

lemma scan_window:
  "sorted_wrt (\<lambda>x y. Key x < Key y) xs \<Longrightarrow>
   takeWhile (\<lambda>x. HasPrefix (Key x) pre) (dropWhile (\<lambda>x. Key x < pre) xs) =
   filter (\<lambda>x. HasPrefix (Key x) pre) xs"
proof (induction xs)
  case Nil
  then show ?case by simp
next
  case (Cons x xs)
  then have later: "\<forall>y \<in> set xs. Key x < Key y"
    and IH: "takeWhile (\<lambda>x. HasPrefix (Key x) pre) (dropWhile (\<lambda>x. Key x < pre) xs) =
             filter (\<lambda>x. HasPrefix (Key x) pre) xs"
    by simp_all
  show ?case
  proof (cases "Key x < pre")
    case True
    then have "\<not> HasPrefix (Key x) pre"
      using HasPrefix_le by fastforce
    with True IH show ?thesis by simp
  next
    case False
    then have ge: "pre \<le> Key x" by simp
    with later have "\<forall>y \<in> set xs. pre \<le> Key y" by fastforce
    then have rest: "dropWhile (\<lambda>x. Key x < pre) xs = xs"
      by (rule dropWhile_all_ge)
    show ?thesis
    proof (cases "HasPrefix (Key x) pre")
      case True
      with False IH rest show ?thesis by simp
    next
      case nope: False
      have "\<forall>y \<in> set xs. \<not> HasPrefix (Key y) pre"
        using HasPrefix_between [OF ge] later nope by blast
      then have "filter (\<lambda>x. HasPrefix (Key x) pre) xs = []"
        by (simp add: filter_empty_conv)
      with False nope show ?thesis by simp
    qed
  qed
qed

lemma enumerate_loop_run:
  "enumerate_loop \<lparr>entries = es, cur = c\<rparr> pre ks vs =
     (case read_all (takeWhile (\<lambda>x. HasPrefix (Key x) pre) c) of
        Inl e \<Rightarrow> ([], [], Some e)
      | Inr vsn \<Rightarrow> (ks @ map Key (takeWhile (\<lambda>x. HasPrefix (Key x) pre) c), vs @ vsn, None))"
proof (induction c arbitrary: ks vs)
  case Nil
  then show ?case
    by (simp add: enumerate_loop_invalid ValidForPrefix_iff)
next
  case (Cons x xs)
  show ?case
  proof (cases "HasPrefix (Key x) pre")
    case False
    then show ?thesis
      by (simp add: enumerate_loop_invalid ValidForPrefix_iff)
  next
    case True
    then have valid: "ValidForPrefix \<lparr>entries = es, cur = x # xs\<rparr> pre"
      by (simp add: ValidForPrefix_iff)
    show ?thesis
    proof (cases "ValueCopy x")
      case (Inl e)
      with valid True show ?thesis
        by (subst enumerate_loop.simps) (simp add: Iterator_Item_def)
    next
      case (Inr v)
      with valid True show ?thesis
        by (subst enumerate_loop.simps)
           (simp add: Iterator_Item_def Next_def Cons.IH split: sum.splits)
    qed
  qed
qed

lemma read_all_InrD: "read_all xs = Inr vs \<Longrightarrow> map ValueCopy xs = map Inr vs"
  by (induction xs arbitrary: vs) (auto split: sum.splits)

lemma read_all_InrI: "map ValueCopy xs = map Inr vs \<Longrightarrow> read_all xs = Inr vs"
  by (induction xs arbitrary: vs) auto

lemma read_all_Inl:
  "read_all xs = Inl e \<Longrightarrow> \<exists>x \<in> set xs. ValueCopy x = Inl e"
  by (induction xs) (auto split: sum.splits)

lemma read_all_fails:
  "x \<in> set xs \<Longrightarrow> ValueCopy x = Inl e \<Longrightarrow> \<exists>e'. read_all xs = Inl e'"
  by (induction xs) (auto split: sum.splits)

lemma scan_characterisation:
  "fst (enumerateKeysForPrefixWithTxn txn pre) =
     (case read_all (takeWhile (\<lambda>x. HasPrefix (Key x) pre)
                       (dropWhile (\<lambda>x. Key x < pre) (items txn))) of
        Inl e \<Rightarrow> ([], [], Some e)
      | Inr vals \<Rightarrow>
          (map Key (takeWhile (\<lambda>x. HasPrefix (Key x) pre)
                      (dropWhile (\<lambda>x. Key x < pre) (items txn))), vals, None))"
  by (simp add: scan_result_unfold enumerate_loop_run split: sum.splits)

lemma wf_txn_window:
  "wf_txn txn \<Longrightarrow>
   takeWhile (\<lambda>x. HasPrefix (Key x) pre) (dropWhile (\<lambda>x. Key x < pre) (items txn)) =
   filter (\<lambda>x. HasPrefix (Key x) pre) (items txn)"
  by (simp add: wf_txn_def sorted_wrt_map scan_window)

lemma reads_ok_read_all:
  "\<forall>x \<in> set xs. \<exists>v. ValueCopy x = Inr v \<Longrightarrow>
   \<exists>vals. read_all xs = Inr vals \<and> map Inr vals = map ValueCopy xs"
proof (induction xs)
  case Nil
  then show ?case by simp
next
  case (Cons x xs)
  then obtain v vals where "ValueCopy x = Inr v" "read_all xs = Inr vals"
    "map Inr vals = map ValueCopy xs"
    by auto
  then show ?case by simp
qed

lemma less_append_Cons: "(xs :: bytes) < xs @ y # ys"
  by (induction xs) auto

lemma diverging_append_less:
  "(p :: bytes) < q \<Longrightarrow> \<not> HasPrefix q p \<Longrightarrow> p @ a < q @ b"
proof (induction p arbitrary: q)
  case Nil
  then show ?case by simp
next
  case (Cons x xs)
  then show ?case by (cases q) auto
qed

lemma diverging_append_no_prefix:
  "(p :: bytes) < q \<Longrightarrow> \<not> HasPrefix q p \<Longrightarrow> \<not> HasPrefix (q @ b) p"
proof (induction p arbitrary: q)
  case Nil
  then show ?case by simp
next
  case (Cons x xs)
  then show ?case by (cases q) auto
qed

lemma no_match_invalid:
  "\<forall>x \<in> set c. \<not> HasPrefix (Key x) pre \<Longrightarrow> \<not> ValidForPrefix \<lparr>entries = es, cur = c\<rparr> pre"
  by (cases c) (auto simp: ValidForPrefix_iff)

text \<open>
  Claim C6. When no key of the store has the prefix as its leading bytes, the scan returns
  empty key and value lists and a nil error: the empty result is a success.
\<close>

theorem scan_no_match_empty:
  assumes "\<forall>x \<in> set (items txn). \<not> HasPrefix (Key x) pre"
  shows "fst (enumerateKeysForPrefixWithTxn txn pre) = ([], [], None)"
proof -
  let ?c = "dropWhile (\<lambda>x. Key x < pre) (items txn)"
  have "\<forall>x \<in> set ?c. \<not> HasPrefix (Key x) pre"
    using assms set_dropWhileD by fast
  then have "\<not> ValidForPrefix \<lparr>entries = items txn, cur = ?c\<rparr> pre"
    by (rule no_match_invalid)
  then show ?thesis
    by (simp add: scan_result_unfold enumerate_loop_invalid)
qed

theorem scan_no_match_empty_witness:
  "fst (enumerateKeysForPrefixWithTxn
     \<lparr>items = [\<lparr>Key = [0, 1], ValueCopy = Inr [0x41]\<rparr>,
               \<lparr>Key = [1, 1], ValueCopy = Inl (StoreError ''read failed'')\<rparr>], numIterators = 0\<rparr> [0, 2])
   = ([], [], None)"
proof -
  let ?T = "\<lparr>items = [\<lparr>Key = [0, 1], ValueCopy = Inr [0x41]\<rparr>,
               \<lparr>Key = [1, 1::byte], ValueCopy = Inl (StoreError ''read failed'') :: error + bytes\<rparr>],
            numIterators = 0\<rparr>"
  have h: "\<forall>x \<in> set (items ?T). \<not> HasPrefix (Key x) [0, 2]" by simp
  from scan_no_match_empty [OF h] show ?thesis .
qed

text \<open>
  Claim C1. On a store whose entries are in strictly ascending key order and whose matching
  values can be read, the scan returns exactly the entries whose key has the prefix as its
  leading bytes: the keys of those entries in store order, which is strictly ascending, with
  their values in the same order, and a nil error. These are the entries from the first key
  not below the prefix up to, and not including, the first cursor position that is exhausted
  or whose key does not start with the prefix. This holds for every prefix, the non-empty
  ones in particular.
\<close>

theorem scan_returns_prefix_range:
  assumes wf: "wf_txn txn"
    and reads: "\<forall>x \<in> set (items txn). HasPrefix (Key x) pre \<longrightarrow> (\<exists>v. ValueCopy x = Inr v)"
  shows "\<exists>keys vals.
           fst (enumerateKeysForPrefixWithTxn txn pre) = (keys, vals, None) \<and>
           keys = map Key (filter (\<lambda>x. HasPrefix (Key x) pre) (items txn)) \<and>
           map Inr vals = map ValueCopy (filter (\<lambda>x. HasPrefix (Key x) pre) (items txn)) \<and>
           sorted_wrt (<) keys \<and>
           keys = map Key (takeWhile (\<lambda>x. HasPrefix (Key x) pre)
                             (dropWhile (\<lambda>x. Key x < pre) (items txn)))"
proof -
  let ?M = "filter (\<lambda>x. HasPrefix (Key x) pre) (items txn)"
  have win: "takeWhile (\<lambda>x. HasPrefix (Key x) pre)
               (dropWhile (\<lambda>x. Key x < pre) (items txn)) = ?M"
    using wf by (rule wf_txn_window)
  have "\<forall>x \<in> set ?M. \<exists>v. ValueCopy x = Inr v"
    using reads by simp
  then obtain vals where vals: "read_all ?M = Inr vals" "map Inr vals = map ValueCopy ?M"
    using reads_ok_read_all by blast
  have res: "fst (enumerateKeysForPrefixWithTxn txn pre) = (map Key ?M, vals, None)"
    by (simp add: scan_characterisation win vals)
  have "sorted_wrt (<) (map Key (items txn))"
    using wf by (simp add: wf_txn_def)
  then have "sorted_wrt (<) (map Key ?M)"
    by (simp add: sorted_wrt_map sorted_wrt_filter)
  with res vals win show ?thesis by simp
qed

theorem scan_returns_prefix_range_witness:
  "fst (enumerateKeysForPrefixWithTxn
     \<lparr>items = [\<lparr>Key = [0, 1], ValueCopy = Inr [0x41]\<rparr>,
               \<lparr>Key = [0, 2], ValueCopy = Inr [0x42]\<rparr>,
               \<lparr>Key = [1, 1], ValueCopy = Inr [0x68]\<rparr>], numIterators = 0\<rparr> [0])
   = ([[0, 1], [0, 2]], [[0x41], [0x42]], None)"
proof -
  let ?T = "\<lparr>items = [\<lparr>Key = [0, 1], ValueCopy = Inr [0x41]\<rparr>,
               \<lparr>Key = [0, 2], ValueCopy = Inr [0x42]\<rparr>,
               \<lparr>Key = [1, 1::byte], ValueCopy = Inr [0x68::byte]\<rparr>], numIterators = 0\<rparr>"
  have h1: "wf_txn ?T" by (simp add: wf_txn_def)
  have h2: "\<forall>x \<in> set (items ?T). HasPrefix (Key x) [0] \<longrightarrow> (\<exists>v. ValueCopy x = Inr v)"
    by simp
  from scan_returns_prefix_range [OF h1 h2] show ?thesis
    by auto
qed

text \<open>
  Claim C3. On a store in strictly ascending key order, if the value of an entry whose key
  has the prefix cannot be read, the scan returns empty key and value lists and a non-nil
  error, which is the error of such an entry; the pairs collected before are dropped. That
  result differs from the result of a scan that finds nothing, whose error is nil.
\<close>

theorem scan_read_failure_aborts:
  assumes wf: "wf_txn txn"
    and x: "x \<in> set (items txn)" "HasPrefix (Key x) pre" "ValueCopy x = Inl e"
  shows "\<exists>e'. fst (enumerateKeysForPrefixWithTxn txn pre) = ([], [], Some e') \<and>
              (\<exists>y. y \<in> set (items txn) \<and> HasPrefix (Key y) pre \<and> ValueCopy y = Inl e') \<and>
              fst (enumerateKeysForPrefixWithTxn txn pre) \<noteq> ([], [], None)"
proof -
  let ?M = "filter (\<lambda>x. HasPrefix (Key x) pre) (items txn)"
  have win: "takeWhile (\<lambda>x. HasPrefix (Key x) pre)
               (dropWhile (\<lambda>x. Key x < pre) (items txn)) = ?M"
    using wf by (rule wf_txn_window)
  have "x \<in> set ?M" using x by simp
  then obtain e' where e': "read_all ?M = Inl e'"
    using read_all_fails x(3) by blast
  then obtain y where "y \<in> set ?M" "ValueCopy y = Inl e'"
    using read_all_Inl by blast
  moreover have "fst (enumerateKeysForPrefixWithTxn txn pre) = ([], [], Some e')"
    by (simp add: scan_characterisation win e')
  ultimately show ?thesis by auto
qed

theorem scan_read_failure_aborts_witness:
  "fst (enumerateKeysForPrefixWithTxn
     \<lparr>items = [\<lparr>Key = [0, 1], ValueCopy = Inr [0x41]\<rparr>,
               \<lparr>Key = [0, 2], ValueCopy = Inl (StoreError ''read failed'')\<rparr>,
               \<lparr>Key = [1, 1], ValueCopy = Inr [0x68]\<rparr>], numIterators = 0\<rparr> [0])
   = ([], [], Some (StoreError ''read failed''))"
proof -
  let ?x = "\<lparr>Key = [0, 2::byte], ValueCopy = Inl (StoreError ''read failed'') :: error + bytes\<rparr>"
  let ?T = "\<lparr>items = [\<lparr>Key = [0, 1], ValueCopy = Inr [0x41]\<rparr>, ?x,
               \<lparr>Key = [1, 1::byte], ValueCopy = Inr [0x68::byte]\<rparr>], numIterators = 0\<rparr>"
  have h1: "wf_txn ?T" by (simp add: wf_txn_def)
  have h2: "?x \<in> set (items ?T)" by simp
  have h3: "HasPrefix (Key ?x) [0]" by simp
  have h4: "ValueCopy ?x = Inl (StoreError ''read failed'')" by simp
  from scan_read_failure_aborts [OF h1 h2 h3 h4] show ?thesis
    by auto
qed

text \<open>
  Claim C8. A scan leaves the transaction as it found it (the iterator it opened is closed
  again), and a second scan with the same prefix on the transaction the first one left
  behind returns the same key list, value list and error.
\<close>

theorem scan_restartable:
  "snd (enumerateKeysForPrefixWithTxn txn pre) = txn \<and>
   fst (enumerateKeysForPrefixWithTxn (snd (enumerateKeysForPrefixWithTxn txn pre)) pre) =
   fst (enumerateKeysForPrefixWithTxn txn pre)"
proof -
  have "snd (enumerateKeysForPrefixWithTxn txn pre) = txn"
    by (simp add: enumerateKeysForPrefixWithTxn_def NewIterator_def Close_def)
  then show ?thesis by simp
qed

text \<open>
  Claim C9. With the empty prefix, on a store in strictly ascending key order whose values
  can be read, the scan returns the key and the value of every entry of the store, in store
  order, which is ascending, and a nil error.
\<close>

theorem scan_empty_prefix_returns_all:
  assumes wf: "wf_txn txn"
    and reads: "\<forall>x \<in> set (items txn). \<exists>v. ValueCopy x = Inr v"
  shows "\<exists>vals. fst (enumerateKeysForPrefixWithTxn txn []) = (map Key (items txn), vals, None) \<and>
           map Inr vals = map ValueCopy (items txn) \<and>
           sorted_wrt (<) (map Key (items txn))"
proof -
  obtain vals where vals: "read_all (items txn) = Inr vals"
    "map Inr vals = map ValueCopy (items txn)"
    using reads reads_ok_read_all by blast
  have win: "takeWhile (\<lambda>x. HasPrefix (Key x) [])
               (dropWhile (\<lambda>x. Key x < []) (items txn)) = items txn"
    by simp
  have "fst (enumerateKeysForPrefixWithTxn txn []) = (map Key (items txn), vals, None)"
    unfolding scan_characterisation win by (simp add: vals)
  with vals wf show ?thesis by (auto simp: wf_txn_def)
qed

theorem scan_empty_prefix_returns_all_witness:
  "fst (enumerateKeysForPrefixWithTxn
     \<lparr>items = [\<lparr>Key = [0, 1], ValueCopy = Inr [0x41]\<rparr>,
               \<lparr>Key = [0, 2], ValueCopy = Inr [0x42]\<rparr>,
               \<lparr>Key = [1, 1], ValueCopy = Inr [0x68]\<rparr>], numIterators = 0\<rparr> [])
   = ([[0, 1], [0, 2], [1, 1]], [[0x41], [0x42], [0x68]], None)"
proof -
  let ?T = "\<lparr>items = [\<lparr>Key = [0, 1], ValueCopy = Inr [0x41]\<rparr>,
               \<lparr>Key = [0, 2], ValueCopy = Inr [0x42]\<rparr>,
               \<lparr>Key = [1, 1::byte], ValueCopy = Inr [0x68::byte]\<rparr>], numIterators = 0\<rparr>"
  have h1: "wf_txn ?T" by (simp add: wf_txn_def)
  have h2: "\<forall>x \<in> set (items ?T). \<exists>v. ValueCopy x = Inr v" by simp
  from scan_empty_prefix_returns_all [OF h1 h2] show ?thesis
    by auto
qed

text \<open>
  A byte sequence whose last byte is incremented lies above the sequence and does not start
  with it.
\<close>

lemma byte_less_succ: "(x :: byte) \<noteq> 255 \<Longrightarrow> x < x + 1"
proof -
  assume ne: "x \<noteq> 255"
  have "1 + x \<noteq> 0"
  proof
    assume "1 + x = 0"
    then have "x = - 1" by (simp add: eq_neg_iff_add_eq_0 add.commute)
    with ne show False by simp
  qed
  then have "unat (1 + x) = Suc (unat x)" by (rule unatSuc)
  then show ?thesis by (simp add: word_less_nat_alt add.commute)
qed

lemma last_byte_incremented:
  "P \<noteq> [] \<Longrightarrow> last P \<noteq> 255 \<Longrightarrow>
   P < butlast P @ [last P + 1] \<and> \<not> HasPrefix (butlast P @ [last P + 1]) P"
proof (induction P)
  case Nil
  then show ?case by simp
next
  case (Cons x xs)
  then show ?case
    using byte_less_succ [of x] by (cases xs) auto
qed

text \<open>
  Claim C5. Let \<open>P\<close> be a non-empty prefix and \<open>Q\<close> a byte sequence above \<open>P\<close> that
  does not start with \<open>P\<close>; \<open>P\<close> with its last byte incremented, the spec's \<open>P+1\<close>, is
  such a \<open>Q\<close> by \<open>last_byte_incremented\<close>. The store holding exactly the keys \<open>P\<close>,
  \<open>P||0x00\<close> and \<open>Q||0x00\<close> keeps them in that order. A scan with prefix \<open>P\<close> starts at
  the key \<open>P\<close> itself, the smallest key not below \<open>P\<close>, and returns the pairs of \<open>P\<close>
  and \<open>P||0x00\<close> in that order and not the pair of \<open>Q||0x00\<close>.
\<close>

theorem scan_boundary_precision:
  assumes ne: "P \<noteq> []" and after: "P < Q" "\<not> HasPrefix Q P"
  shows "wf_txn \<lparr>items = [\<lparr>Key = P, ValueCopy = Inr v1\<rparr>,
                          \<lparr>Key = P @ [0], ValueCopy = Inr v2\<rparr>,
                          \<lparr>Key = Q @ [0], ValueCopy = Inr v3\<rparr>], numIterators = n\<rparr> \<and>
         cur (Seek (fst (NewIterator
               \<lparr>items = [\<lparr>Key = P, ValueCopy = Inr v1\<rparr>,
                          \<lparr>Key = P @ [0], ValueCopy = Inr v2\<rparr>,
                          \<lparr>Key = Q @ [0], ValueCopy = Inr v3\<rparr>], numIterators = n\<rparr>)) P) =
           [\<lparr>Key = P, ValueCopy = Inr v1\<rparr>,
            \<lparr>Key = P @ [0], ValueCopy = Inr v2\<rparr>,
            \<lparr>Key = Q @ [0], ValueCopy = Inr v3\<rparr>] \<and>
         fst (enumerateKeysForPrefixWithTxn
               \<lparr>items = [\<lparr>Key = P, ValueCopy = Inr v1\<rparr>,
                          \<lparr>Key = P @ [0], ValueCopy = Inr v2\<rparr>,
                          \<lparr>Key = Q @ [0], ValueCopy = Inr v3\<rparr>], numIterators = n\<rparr> P) =
           ([P, P @ [0]], [v1, v2], None)"
proof -
  have o1: "P < P @ [0]" by (rule less_append_Cons)
  have o2: "P @ [0] < Q @ [0]" using after by (rule diverging_append_less)
  have o3: "P < Q @ [0]" using o1 o2 by (rule less_trans)
  have np: "\<not> HasPrefix (Q @ [0]) P" using after by (rule diverging_append_no_prefix)
  have hp: "HasPrefix (P @ [0]) P" by (rule HasPrefix_append)
  have hp0: "HasPrefix P P" using HasPrefix_append [of P "[]"] by simp
  have "wf_txn \<lparr>items = [\<lparr>Key = P, ValueCopy = Inr v1\<rparr>,
                          \<lparr>Key = P @ [0], ValueCopy = Inr v2\<rparr>,
                          \<lparr>Key = Q @ [0], ValueCopy = Inr v3\<rparr>], numIterators = n\<rparr>"
    using o1 o2 o3 by (simp add: wf_txn_def)
  moreover have "cur (Seek (fst (NewIterator
               \<lparr>items = [\<lparr>Key = P, ValueCopy = Inr v1\<rparr>,
                          \<lparr>Key = P @ [0], ValueCopy = Inr v2\<rparr>,
                          \<lparr>Key = Q @ [0], ValueCopy = Inr v3\<rparr>], numIterators = n\<rparr>)) P) =
           [\<lparr>Key = P, ValueCopy = Inr v1\<rparr>,
            \<lparr>Key = P @ [0], ValueCopy = Inr v2\<rparr>,
            \<lparr>Key = Q @ [0], ValueCopy = Inr v3\<rparr>]"
    by (simp add: Seek_def NewIterator_def)
  moreover have "fst (enumerateKeysForPrefixWithTxn
               \<lparr>items = [\<lparr>Key = P, ValueCopy = Inr v1\<rparr>,
                          \<lparr>Key = P @ [0], ValueCopy = Inr v2\<rparr>,
                          \<lparr>Key = Q @ [0], ValueCopy = Inr v3\<rparr>], numIterators = n\<rparr> P) =
           ([P, P @ [0]], [v1, v2], None)"
    using np hp hp0 by (simp add: scan_characterisation)
  ultimately show ?thesis by simp
qed

theorem scan_boundary_precision_witness:
  "fst (enumerateKeysForPrefixWithTxn
         \<lparr>items = [\<lparr>Key = [5], ValueCopy = Inr [1]\<rparr>,
                    \<lparr>Key = [5, 0], ValueCopy = Inr [2]\<rparr>,
                    \<lparr>Key = [6, 0], ValueCopy = Inr [3]\<rparr>], numIterators = 0\<rparr> [5]) =
     ([[5], [5, 0]], [[1], [2]], None)"
proof -
  have h1: "[5::byte] \<noteq> []" by simp
  have "last [5::byte] \<noteq> 255" by simp
  from last_byte_incremented [OF h1 this]
  have h2: "[5::byte] < [6]" and h3: "\<not> HasPrefix [6] [5]" by simp_all
  from scan_boundary_precision [OF h1 h2 h3, of "[1]" "[2]" "[3]" 0] show ?thesis
    by simp
qed

section \<open>Properties of the prefix registry\<close>

lemma GetPrefixes_loop_resolve:
  "length prefixes = length structFields \<Longrightarrow> i \<le> length structFields \<Longrightarrow>
   GetPrefixes_loop um structFields i prefixes =
     (case resolve_all um (drop i structFields) of
        Inl p \<Rightarrow> Inl p
      | Inr vs \<Rightarrow> Inr (take i prefixes @ zip (map fst (drop i prefixes)) vs))"
proof (induction um structFields i prefixes rule: GetPrefixes_loop.induct)
  case (1 um structFields i prefixes)
  show ?case
  proof (cases "i < length structFields")
    case False
    with "1.prems" show ?thesis
      by (subst GetPrefixes_loop.simps) simp
  next
    case True
    then have dropf: "drop i structFields = structFields ! i # drop (Suc i) structFields"
      by (simp add: Cons_nth_drop_Suc)
    from True "1.prems" have dropp: "drop i prefixes = prefixes ! i # drop (Suc i) prefixes"
      by (simp add: Cons_nth_drop_Suc)
    show ?thesis
    proof (cases "getPrefixIdValue um (structFields ! i)")
      case (Inl p)
      with True dropf show ?thesis
        by (subst GetPrefixes_loop.simps) simp
    next
      case (Inr prefixId)
      let ?ps = "prefixes[i := (fst (prefixes ! i), prefixId)]"
      have IH: "GetPrefixes_loop um structFields (i + 1) ?ps =
        (case resolve_all um (drop (i + 1) structFields) of
           Inl p \<Rightarrow> Inl p
         | Inr vs \<Rightarrow> Inr (take (i + 1) ?ps @ zip (map fst (drop (i + 1) ?ps)) vs))"
        using "1.IH" [OF True Inr] True "1.prems" by simp
      have tk: "take (i + 1) ?ps = take i prefixes @ [(fst (prefixes ! i), prefixId)]"
        using True "1.prems" by (simp add: take_Suc_conv_app_nth)
      have dr: "drop (i + 1) ?ps = drop (Suc i) prefixes"
        by simp
      have "GetPrefixes_loop um structFields i prefixes =
            GetPrefixes_loop um structFields (i + 1) ?ps"
        using True Inr by (subst GetPrefixes_loop.simps) simp
      then show ?thesis
        unfolding IH tk dr using Inr dropf dropp
        by (simp split: sum.splits)
    qed
  qed
qed

lemma GetPrefixes_of_resolve:
  "GetPrefixes_of um structFields =
     (case resolve_all um structFields of
        Inl p \<Rightarrow> Inl p
      | Inr vs \<Rightarrow> Inr (zip (map Name structFields) vs))"
  by (simp add: GetPrefixes_of_def GetPrefixes_loop_resolve comp_def split: sum.splits)

lemma resolve_all_InrD:
  "resolve_all um fs = Inr vs \<Longrightarrow> map (getPrefixIdValue um) fs = map Inr vs"
  by (induction fs arbitrary: vs) (auto split: sum.splits)

lemma resolve_all_fails:
  "f \<in> set fs \<Longrightarrow> getPrefixIdValue um f = Inl p \<Longrightarrow> \<exists>p'. resolve_all um fs = Inl p'"
  by (induction fs) (auto split: sum.splits)

lemma length_DBPrefixes: "length DBPrefixes = 77"
  by (simp add: DBPrefixes_def)

lemma resolve_all_DBPrefixes:
  "\<exists>vs. resolve_all json_Unmarshal DBPrefixes = Inr vs \<and>
     length vs = 77 \<and> distinct vs \<and> list_all (\<lambda>v. length v = 1) vs"
  by (simp add: DBPrefixes_def getPrefixIdValue_def Tag_Get_def json_Unmarshal_def
      isSpace_def digit_def begin_number_def after_elem_def)

lemma GetPrefixes_resolved:
  "\<exists>vs. GetPrefixes json_Unmarshal = Inr (zip (map Name DBPrefixes) vs) \<and>
     length vs = length DBPrefixes \<and> distinct vs \<and> list_all (\<lambda>v. length v = 1) vs"
proof -
  from resolve_all_DBPrefixes obtain vs where
    "resolve_all json_Unmarshal DBPrefixes = Inr vs" "length vs = 77" "distinct vs"
    "list_all (\<lambda>v. length v = 1) vs"
    by blast
  then have "GetPrefixes json_Unmarshal = Inr (zip (map Name DBPrefixes) vs) \<and>
     length vs = length DBPrefixes \<and> distinct vs \<and> list_all (\<lambda>v. length v = 1) vs"
    by (simp add: GetPrefixes_def GetPrefixes_of_resolve length_DBPrefixes)
  then show ?thesis by (rule exI)
qed

lemma HasPrefix_same_length: "length a = length b \<Longrightarrow> HasPrefix b a \<Longrightarrow> a = b"
  by (simp add: HasPrefix_def)

lemma distinct_same_length_prefix_free:
  assumes d: "distinct vs" and one: "list_all (\<lambda>v. length v = n) vs"
    and i: "i < length vs" and j: "j < length vs" and ne: "i \<noteq> j"
  shows "\<not> HasPrefix (vs ! j) (vs ! i)"
proof
  assume hp: "HasPrefix (vs ! j) (vs ! i)"
  from one i j have "length (vs ! i) = length (vs ! j)"
    by (simp add: list_all_length)
  then have "vs ! i = vs ! j" using hp by (rule HasPrefix_same_length)
  with d i j ne show False by (simp add: nth_eq_iff_index_eq)
qed

text \<open>
  Claim C2. \<^verbatim>\<open>GetPrefixes\<close> on the declarations of \<^verbatim>\<open>DBPrefixes\<close> returns a registry
  in which, for every two descriptors at different positions, the prefix of the one is not
  a leading subsequence of the prefix of the other, in either direction. In particular no
  two prefixes are equal.
\<close>

theorem registry_prefix_free:
  "\<exists>reg. GetPrefixes json_Unmarshal = Inr reg \<and>
     (\<forall>i < length reg. \<forall>j < length reg.
        i \<noteq> j \<longrightarrow> \<not> HasPrefix (snd (reg ! j)) (snd (reg ! i)))"
proof -
  from GetPrefixes_resolved obtain vs where
    reg: "GetPrefixes json_Unmarshal = Inr (zip (map Name DBPrefixes) vs)"
    and len: "length vs = length DBPrefixes"
    and d: "distinct vs" and one: "list_all (\<lambda>v. length v = 1) vs"
    by blast
  let ?reg = "zip (map Name DBPrefixes) vs"
  have "\<not> HasPrefix (snd (?reg ! j)) (snd (?reg ! i))"
    if "i < length ?reg" "j < length ?reg" "i \<noteq> j" for i j
  proof -
    from that len have i: "i < length vs" and j: "j < length vs" by simp_all
    from distinct_same_length_prefix_free [OF d one i j that(3)] i j len
    show ?thesis by simp
  qed
  with reg show ?thesis by blast
qed

theorem registry_prefix_free_witness:
  "\<exists>reg. GetPrefixes json_Unmarshal = Inr reg \<and>
     \<not> HasPrefix (snd (reg ! 1)) (snd (reg ! 0)) \<and>
     \<not> HasPrefix (snd (reg ! 0)) (snd (reg ! 1))"
proof -
  from registry_prefix_free obtain reg where
    reg: "GetPrefixes json_Unmarshal = Inr reg"
    and free: "\<And>i j. i < length reg \<Longrightarrow> j < length reg \<Longrightarrow> i \<noteq> j \<Longrightarrow>
                 \<not> HasPrefix (snd (reg ! j)) (snd (reg ! i))"
    by blast
  from reg GetPrefixes_resolved have "length reg = 77"
    by (auto simp: length_DBPrefixes)
  then have l0: "0 < length reg" and l1: "1 < length reg" by simp_all
  have "\<not> HasPrefix (snd (reg ! 1)) (snd (reg ! 0))"
    using free [OF l0 l1] by simp
  moreover have "\<not> HasPrefix (snd (reg ! 0)) (snd (reg ! 1))"
    using free [OF l1 l0] by simp
  ultimately show ?thesis using reg by blast
qed

text \<open>
  Claim C10. \<^verbatim>\<open>GetPrefixes\<close> on the declarations of \<^verbatim>\<open>DBPrefixes\<close> does not panic: it
  returns a registry with one descriptor per declared field, and the prefix of every
  descriptor is exactly one byte long.
\<close>

theorem registry_prefixes_one_byte:
  "\<exists>reg. GetPrefixes json_Unmarshal = Inr reg \<and>
     length reg = length DBPrefixes \<and>
     (\<forall>d \<in> set reg. length (snd d) = 1)"
proof -
  from GetPrefixes_resolved obtain vs where
    reg: "GetPrefixes json_Unmarshal = Inr (zip (map Name DBPrefixes) vs)"
    and len: "length vs = length DBPrefixes"
    and one: "list_all (\<lambda>v. length v = 1) vs"
    by blast
  let ?reg = "zip (map Name DBPrefixes) vs"
  have "length ?reg = length DBPrefixes"
    using len by simp
  moreover have "\<forall>d \<in> set ?reg. length (snd d) = 1"
  proof
    fix d assume "d \<in> set ?reg"
    then have "snd d \<in> set vs"
      by (metis prod.collapse set_zip_rightD)
    with one show "length (snd d) = 1"
      by (simp add: list_all_iff)
  qed
  ultimately show ?thesis
    using reg by blast
qed

theorem registry_prefixes_one_byte_witness:
  "\<exists>reg. GetPrefixes json_Unmarshal = Inr reg \<and> length (snd (reg ! 0)) = 1"
proof -
  from registry_prefixes_one_byte obtain reg where
    reg: "GetPrefixes json_Unmarshal = Inr reg"
    and len: "length reg = length DBPrefixes"
    and one: "\<And>d. d \<in> set reg \<Longrightarrow> length (snd d) = 1"
    by blast
  from len have "0 < length reg" by (simp add: length_DBPrefixes)
  then have "reg ! 0 \<in> set reg" by (rule nth_mem)
  then have "length (snd (reg ! 0)) = 1" by (rule one)
  with reg show ?thesis by blast
qed

text \<open>
  Claim C7. Whatever \<^verbatim>\<open>json.Unmarshal\<close> computes, two invocations of
  \<^verbatim>\<open>GetPrefixes\<close> that return registries return the same registry; its descriptors carry
  the names of the declared fields in declaration order, and the prefix of each descriptor
  is what \<^verbatim>\<open>getPrefixIdValue\<close> resolves for the field at the same position.
\<close>

theorem GetPrefixes_deterministic:
  assumes "GetPrefixes um = Inr reg1" and "GetPrefixes um = Inr reg2"
  shows "reg1 = reg2 \<and>
         map fst reg1 = map Name DBPrefixes \<and>
         map (\<lambda>d. Inr (snd d)) reg1 = map (getPrefixIdValue um) DBPrefixes"
proof -
  from assms have same: "reg1 = reg2" by simp
  from assms(1) obtain vs where vs: "resolve_all um DBPrefixes = Inr vs"
    and reg1: "reg1 = zip (map Name DBPrefixes) vs"
    by (auto simp: GetPrefixes_def GetPrefixes_of_resolve split: sum.splits)
  from vs have m: "map (getPrefixIdValue um) DBPrefixes = map Inr vs"
    by (rule resolve_all_InrD)
  have len: "length DBPrefixes = length vs"
    using arg_cong [OF m, of length] by (simp only: length_map)
  have names: "map fst reg1 = map Name DBPrefixes"
    unfolding reg1 using len by simp
  have "map snd reg1 = vs"
    unfolding reg1 using len by simp
  then have "map Inr (map snd reg1) = map Inr vs"
    by (simp only:)
  then have vals: "map (\<lambda>d. Inr (snd d)) reg1 = map (getPrefixIdValue um) DBPrefixes"
    unfolding m by (simp only: map_map comp_def)
  from same names vals show ?thesis by (intro conjI)
qed

theorem GetPrefixes_deterministic_witness:
  "\<exists>reg. GetPrefixes json_Unmarshal = Inr reg \<and>
     map fst reg = map Name DBPrefixes \<and>
     map (\<lambda>d. Inr (snd d)) reg = map (getPrefixIdValue json_Unmarshal) DBPrefixes"
proof -
  from GetPrefixes_resolved obtain reg where h: "GetPrefixes json_Unmarshal = Inr reg"
    by blast
  from GetPrefixes_deterministic [OF h h]
  have "map fst reg = map Name DBPrefixes"
    and "map (\<lambda>d. Inr (snd d)) reg = map (getPrefixIdValue json_Unmarshal) DBPrefixes"
    by simp_all
  with h show ?thesis by (intro exI [of _ reg] conjI)
qed

text \<open>
  The claim C4 as stated fails: a field declared with \<^verbatim>\<open>prefix_id:"[]"\<close> or
  \<^verbatim>\<open>prefix_id:""\<close> does not panic. It resolves to the empty prefix, and a struct type
  with such a field gets its registry.
\<close>

theorem sentinel_declaration_no_panic:
  "getPrefixIdValue json_Unmarshal
     \<lparr>Name = ''PrefixReserved'', Tag = [(''prefix_id'', ''[]'')]\<rparr> = Inr [] \<and>
   getPrefixIdValue json_Unmarshal
     \<lparr>Name = ''PrefixReserved'', Tag = [(''prefix_id'', [])]\<rparr> = Inr [] \<and>
   GetPrefixes_of json_Unmarshal
     [\<lparr>Name = ''PrefixReserved'', Tag = [(''prefix_id'', ''[]'')]\<rparr>] =
     Inr [(''PrefixReserved'', [])]"
  by (simp add: getPrefixIdValue_def Tag_Get_def GetPrefixes_of_resolve)

text \<open>
  Claim C4, amended. For a field \<open>f\<close> of the struct type whose \<^verbatim>\<open>prefix_id\<close> is
  \<open>v\<close>: if \<open>v\<close> is \<^verbatim>\<open>"-"\<close>, \<^verbatim>\<open>getPrefixIdValue\<close> panics with the error
  "prefix_id cannot be empty"; if \<open>v\<close> is none of \<^verbatim>\<open>"-"\<close>, \<^verbatim>\<open>""\<close>, \<^verbatim>\<open>"[]"\<close>
  and \<^verbatim>\<open>json.Unmarshal\<close> fails on it, \<^verbatim>\<open>getPrefixIdValue\<close> panics with that error. In
  both cases registry construction as a whole ends in a panic and returns no registry. If
  \<open>v\<close> is \<^verbatim>\<open>""\<close> (which is also what a missing tag gives) or \<^verbatim>\<open>"[]"\<close>, there is no
  panic and the prefix is the empty byte sequence.
\<close>

theorem bad_declaration_panics:
  assumes f: "f \<in> set structFields"
    and v: "v = Tag_Get (Tag f) ''prefix_id''"
  shows "(v = ''-'' \<longrightarrow>
            getPrefixIdValue um f = Inl (Panic (Errorf ''prefix_id cannot be empty'')) \<and>
            (\<exists>p. GetPrefixes_of um structFields = Inl p)) \<and>
         (v \<noteq> ''-'' \<and> v \<noteq> [] \<and> v \<noteq> ''[]'' \<and> um v = Inl err \<longrightarrow>
            getPrefixIdValue um f = Inl (Panic err) \<and>
            (\<exists>p. GetPrefixes_of um structFields = Inl p)) \<and>
         (v = [] \<or> v = ''[]'' \<longrightarrow> getPrefixIdValue um f = Inr [])"
proof -
  have fatal: "\<exists>p. GetPrefixes_of um structFields = Inl p"
    if "getPrefixIdValue um f = Inl q" for q
    using resolve_all_fails [OF f that] by (auto simp: GetPrefixes_of_resolve)
  have a: "getPrefixIdValue um f = Inl (Panic (Errorf ''prefix_id cannot be empty''))"
    if "v = ''-''"
    using that v by (simp add: getPrefixIdValue_def)
  have b: "getPrefixIdValue um f = Inl (Panic err)"
    if "v \<noteq> ''-''" "v \<noteq> []" "v \<noteq> ''[]''" "um v = Inl err"
    using that v by (simp add: getPrefixIdValue_def)
  have c: "getPrefixIdValue um f = Inr []" if "v = [] \<or> v = ''[]''"
    using that v by (auto simp: getPrefixIdValue_def)
  from a b c fatal show ?thesis by blast
qed

theorem bad_declaration_panics_witness:
  "GetPrefixes_of json_Unmarshal
     [\<lparr>Name = ''PrefixA'', Tag = [(''prefix_id'', ''[0]'')]\<rparr>,
      \<lparr>Name = ''PrefixB'', Tag = [(''prefix_id'', ''-'')]\<rparr>] =
     Inl (Panic (Errorf ''prefix_id cannot be empty'')) \<and>
   GetPrefixes_of json_Unmarshal
     [\<lparr>Name = ''PrefixA'', Tag = [(''prefix_id'', ''[0]'')]\<rparr>,
      \<lparr>Name = ''PrefixB'', Tag = [(''prefix_id'', ''[256]'')]\<rparr>] =
     Inl (Panic UnmarshalError) \<and>
   getPrefixIdValue json_Unmarshal \<lparr>Name = ''PrefixC'', Tag = [(''is_state'', ''true'')]\<rparr> =
     Inr []"
proof -
  let ?A = "\<lparr>Name = ''PrefixA'', Tag = [(''prefix_id'', ''[0]'')]\<rparr>"
  let ?B1 = "\<lparr>Name = ''PrefixB'', Tag = [(''prefix_id'', ''-'')]\<rparr>"
  let ?B2 = "\<lparr>Name = ''PrefixB'', Tag = [(''prefix_id'', ''[256]'')]\<rparr>"
  let ?C = "\<lparr>Name = ''PrefixC'', Tag = [(''is_state'', ''true'')]\<rparr>"
  have A: "getPrefixIdValue json_Unmarshal ?A = Inr [0]"
    by (simp add: getPrefixIdValue_def Tag_Get_def json_Unmarshal_def
        isSpace_def digit_def begin_number_def after_elem_def)
  have e: "json_Unmarshal ''[256]'' = Inl UnmarshalError"
    by (simp add: json_Unmarshal_def isSpace_def digit_def begin_number_def after_elem_def)
  have 1: "getPrefixIdValue json_Unmarshal ?B1 = Inl (Panic (Errorf ''prefix_id cannot be empty''))"
    using bad_declaration_panics [of ?B1 "[?A, ?B1]" "''-''" json_Unmarshal]
    by (simp add: Tag_Get_def)
  have 2: "getPrefixIdValue json_Unmarshal ?B2 = Inl (Panic UnmarshalError)"
    using bad_declaration_panics [of ?B2 "[?A, ?B2]" "''[256]''" json_Unmarshal UnmarshalError] e
    by (simp add: Tag_Get_def)
  have 3: "getPrefixIdValue json_Unmarshal ?C = Inr []"
    using bad_declaration_panics [of ?C "[?C]" "[]" json_Unmarshal]
    by (simp add: Tag_Get_def)
  from A 1 2 3 show ?thesis
    by (simp add: GetPrefixes_of_resolve)
qed

end
